theory Spec2Isabelle
  imports Complex_Main "HOL-Library.AList"
begin

section \<open>The snake plugin of plugins/snake.py\<close>

text \<open>
  A shallow embedding of the classes \<open>Snake\<close> and \<open>SnakePlugin\<close>. Objects are records,
  mutation is state passing, and every exception the Python can raise is a value
  \<open>Inl IndexError\<close>. The game object that all snakes and the plugin refer to is one
  shared object; it is threaded through every operation that writes to it.

  Numbers: positions, \<open>length\<close> and \<open>rattles\<close> are Python integers (\<open>int\<close>). The
  timers, the time step and the world origin are Python floats; they are modelled as
  real numbers. The test \<open>time_to_move <= 0\<close> after \<open>time_to_move -= dt\<close> has the same
  outcome on finite floats as on the reals they denote; the rounding error of float
  addition before \<open>round\<close> is not modelled.

  Randomness: every draw of the module \<open>random\<close> is an argument of the operation that
  makes it, so that the operations are functions.
\<close>

subsection \<open>Data\<close>

type_synonym pos = "int \<times> int"

datatype error = IndexError

text \<open>
  The fields of the game object that the plugin reads or writes. \<open>spaces\<close> is a Python
  dict (insertion ordered, keys unique); \<open>saves\<close> counts the calls of
  \<open>game.save_spaces()\<close>, whose body is outside this file.
\<close>

record game_obj =
  world_x :: real
  world_y :: real
  spaces :: "(string \<times> pos) list"
  saves :: nat
  message :: string
  message_timeout :: real

text \<open>
  \<open>Snake\<close>. The attributes \<open>x\<close>, \<open>y\<close> and \<open>length\<close> carry the suffix \<open>_attr\<close>;
  \<open>max_length\<close> and \<open>move_interval\<close> are assigned in \<open>__init__\<close> only, so they are
  constants. The attribute \<open>game\<close> is the shared game object.
\<close>

record snake =
  x_attr :: int
  y_attr :: int
  length_attr :: int
  body :: "pos list"
  direction :: pos
  time_to_move :: real
  rattles :: int

definition max_length :: int where
  "max_length = 15"

definition move_interval :: real where
  "move_interval = 1 / 2"

text \<open>
  \<open>SnakePlugin\<close>. \<open>active\<close> is the attribute of the base class \<open>Plugin\<close>;
  \<open>spawn_interval\<close> and \<open>max_snakes\<close> are assigned in \<open>__init__\<close> only. The list
  \<open>snakes\<close> holds distinct objects (each is made by \<open>try_spawn_snake\<close>), so a snake is
  identified by its index in the list.
\<close>

record plugin =
  game :: game_obj
  active :: bool
  snakes :: "snake list"
  spawn_timer :: real

definition spawn_interval :: real where
  "spawn_interval = 10"

definition max_snakes :: nat where
  "max_snakes = 5"

subsection \<open>Random draws\<close>

text \<open>
  \<open>random.choice([(0, -1), (1, 0), (0, 1), (-1, 0)])\<close> draws one of four entries.
\<close>

datatype choice = Choice0 | Choice1 | Choice2 | Choice3

fun chosen :: "choice \<Rightarrow> pos" where
  "chosen Choice0 = (0, -1)"
| "chosen Choice1 = (1, 0)"
| "chosen Choice2 = (0, 1)"
| "chosen Choice3 = (-1, 0)"

subsection \<open>Library functions\<close>

text \<open>
  Python's \<open>round\<close> of a float with one argument: to the nearest integer, a tie to the
  even one. On an integer it is the identity.
\<close>

definition py_round :: "real \<Rightarrow> int" where
  "py_round r =
     (let f = \<lfloor>r\<rfloor>; d = r - of_int f
      in if d < 1 / 2 then f
         else if 1 / 2 < d then f + 1
         else if even f then f else f + 1)"

text \<open>\<open>str\<close> of an integer, for the f-string that \<open>update\<close> hashes.\<close>

fun str_nat :: "nat \<Rightarrow> string" where
  "str_nat n =
     (if n < 10 then [''0123456789'' ! n]
      else str_nat (n div 10) @ [''0123456789'' ! (n mod 10)])"

definition str_int :: "int \<Rightarrow> string" where
  "str_int i = (if i < 0 then CHR ''-'' # str_nat (nat (- i)) else str_nat (nat i))"

text \<open>\<open>list.pop()\<close> and \<open>list.pop(i)\<close> for \<open>i \<ge> 0\<close>: the list that remains.\<close>

definition pop_last :: "'a list \<Rightarrow> error + 'a list" where
  "pop_last xs = (if xs = [] then Inl IndexError else Inr (butlast xs))"

definition pop_at :: "nat \<Rightarrow> 'a list \<Rightarrow> error + 'a list" where
  "pop_at i xs =
     (if i < length xs then Inr (take i xs @ drop (Suc i) xs) else Inl IndexError)"

subsection \<open>The world\<close>

text \<open>
  \<open>location_id = (int_world_x + int_world_y * 1000) % 127\<close> at the local position
  \<open>p\<close>, with \<open>int_world_x = int(round(p[0] + game.world_x))\<close>. Python's \<open>%\<close> with a
  positive modulus is \<open>mod\<close> on \<open>int\<close>.
\<close>

definition int_world :: "game_obj \<Rightarrow> pos \<Rightarrow> pos" where
  "int_world g p =
     (py_round (of_int (fst p) + world_x g), py_round (of_int (snd p) + world_y g))"

definition location_id :: "pos \<Rightarrow> int" where
  "location_id w = (fst w + snd w * 1000) mod 127"

text \<open>\<open>chr(n)\<close> for \<open>0 \<le> n < 127\<close>.\<close>

definition chr :: "int \<Rightarrow> char" where
  "chr n = char_of n"

subsection \<open>Snake\<close>

definition Snake_init :: "int \<Rightarrow> int \<Rightarrow> choice \<Rightarrow> snake" where
  "Snake_init x y c =
     \<lparr>x_attr = x, y_attr = y, length_attr = 3, body = [(x, y)],
      direction = chosen c, time_to_move = 0, rattles = 0\<rparr>"

text \<open>
  The loop \<open>while len(self.body) > self.length + self.rattles: self.body.pop()\<close>.
\<close>

function trim :: "pos list \<Rightarrow> int \<Rightarrow> error + pos list" where
  "trim b n =
     (if n < int (length b)
      then (case pop_last b of Inl e \<Rightarrow> Inl e | Inr b' \<Rightarrow> trim b' n)
      else Inr b)"
  by pat_completeness auto
termination
  by (relation "measure (\<lambda>(b, n). length b)") (auto simp: pop_last_def split: if_splits)

declare trim.simps [simp del]

text \<open>
  \<open>Snake.update(dt)\<close>. \<open>md5\<close> stands for
  \<open>\<lambda>s. hashlib.md5(s.encode()).hexdigest()\<close>. \<open>turn\<close> is the outcome of the two
  draws: \<open>None\<close> when \<open>random.random() < 0.3\<close> is false, \<open>Some c\<close> when it is true and
  \<open>random.choice\<close> returns entry \<open>c\<close>.
\<close>

definition Snake_update ::
  "(string \<Rightarrow> string) \<Rightarrow> choice option \<Rightarrow> real \<Rightarrow> game_obj \<times> snake
     \<Rightarrow> error + (game_obj \<times> snake)" where
  "Snake_update md5 turn dt gs =
     (let g = fst gs; s = snd gs;
          s1 = s\<lparr>time_to_move := time_to_move s - dt\<rparr>
      in if time_to_move s1 \<le> 0 then
           (let s2 = s1\<lparr>time_to_move := move_interval\<rparr>;
                s3 = (case turn of None \<Rightarrow> s2 | Some c \<Rightarrow> s2\<lparr>direction := chosen c\<rparr>)
            in case body s3 of
                 [] \<Rightarrow> Inl IndexError
               | (head_x, head_y) # _ \<Rightarrow>
                   (let (dx, dy) = direction s3;
                        new_head = (head_x + dx, head_y + dy);
                        w = int_world g new_head;
                        egg = (chr (location_id w) = CHR ''0'');
                        s4 = (if egg \<and> length_attr s3 < max_length
                              then s3\<lparr>length_attr := length_attr s3 + 1\<rparr> else s3);
                        g' = (if egg
                              then g\<lparr>spaces :=
                                       AList.update
                                         (md5 (str_int (fst w) @ '','' @ str_int (snd w)))
                                         w (spaces g),
                                     saves := Suc (saves g)\<rparr>
                              else g)
                    in case trim (new_head # body s4) (length_attr s4 + rattles s4) of
                         Inl e \<Rightarrow> Inl e
                       | Inr b \<Rightarrow> Inr (g', s4\<lparr>body := b\<rparr>)))
         else Inr (g, s1))"

text \<open>
  \<open>Snake.bite(other_snake)\<close> for two distinct objects: the game, \<open>self\<close> and
  \<open>other_snake\<close> after the call, and the value returned.
\<close>

definition bite_message :: string where
  "bite_message = ''Snake bite! One snake lost a segment, another gained rattles.''"

definition middle_index :: "snake \<Rightarrow> nat" where
  "middle_index other = length (body other) div 2"

definition bite ::
  "game_obj \<Rightarrow> snake \<Rightarrow> snake \<Rightarrow> error + (game_obj \<times> snake \<times> snake \<times> bool)" where
  "bite g self other =
     (let self' = self\<lparr>rattles := rattles self + 2\<rparr>
      in if 3 < length (body other) then
           (case pop_at (middle_index other) (body other) of
              Inl e \<Rightarrow> Inl e
            | Inr b \<Rightarrow>
                Inr (g\<lparr>message := bite_message, message_timeout := 2\<rparr>,
                     self',
                     other\<lparr>body := b, length_attr := length_attr other - 1\<rparr>,
                     True))
         else Inr (g, self', other, False))"

text \<open>
  Any number of calls of \<open>update\<close> on one snake. Between two calls anything may happen
  to the game object, so each call takes the game as it is then, with its draws and its
  time step.
\<close>

fun Snake_updates ::
  "(string \<Rightarrow> string) \<Rightarrow> (choice option \<times> real \<times> game_obj) list \<Rightarrow> snake
     \<Rightarrow> error + snake" where
  "Snake_updates md5 [] s = Inr s"
| "Snake_updates md5 ((turn, dt, g) # calls) s =
     (case Snake_update md5 turn dt (g, s) of
        Inl e \<Rightarrow> Inl e
      | Inr gs \<Rightarrow> Snake_updates md5 calls (snd gs))"

subsection \<open>SnakePlugin\<close>

text \<open>
  The loop \<open>for snake in self.snakes: snake.update(dt)\<close>. \<open>turns k\<close> is the outcome of
  the draws of the snake at index \<open>k\<close>.
\<close>

fun update_snakes ::
  "(string \<Rightarrow> string) \<Rightarrow> (nat \<Rightarrow> choice option) \<Rightarrow> real \<Rightarrow> nat \<Rightarrow> game_obj
     \<Rightarrow> snake list \<Rightarrow> error + (game_obj \<times> snake list)" where
  "update_snakes md5 turns dt k g [] = Inr (g, [])"
| "update_snakes md5 turns dt k g (s # ss) =
     (case Snake_update md5 (turns k) dt (g, s) of
        Inl e \<Rightarrow> Inl e
      | Inr gs \<Rightarrow>
          (case update_snakes md5 turns dt (Suc k) (fst gs) ss of
             Inl e \<Rightarrow> Inl e
           | Inr gss \<Rightarrow> Inr (fst gss, snd gs # snd gss)))"

text \<open>
  \<open>check_snake_collisions\<close>. The innermost loop looks for \<open>head1\<close> among the segments
  of \<open>snake2.body[1:]\<close> and stops at the first one that is equal.
\<close>

fun on_segment :: "pos \<Rightarrow> pos list \<Rightarrow> bool" where
  "on_segment head1 [] = False"
| "on_segment head1 (segment # segments) =
     (if head1 = segment then True else on_segment head1 segments)"

text \<open>
  The state of the pass: the game, the snakes, and the calls of \<open>bite\<close> made so far,
  each as (index of the biter, index of the bitten, value returned). The Python drops
  the value returned; the model keeps it so that the calls can be talked about.
\<close>

type_synonym pass = "game_obj \<times> snake list \<times> (nat \<times> nat \<times> bool) list"

text \<open>The loop over \<open>j, snake2\<close> for a fixed \<open>i\<close> and \<open>head1\<close>.\<close>

fun scan_targets :: "nat \<Rightarrow> pos \<Rightarrow> nat list \<Rightarrow> pass \<Rightarrow> error + pass" where
  "scan_targets i head1 [] st = Inr st"
| "scan_targets i head1 (j # js) (g, ss, calls) =
     (if i = j \<or> length (body (ss ! j)) < 2 then scan_targets i head1 js (g, ss, calls)
      else if on_segment head1 (drop 1 (body (ss ! j))) then
        (case bite g (ss ! i) (ss ! j) of
           Inl e \<Rightarrow> Inl e
         | Inr (g', self', other', r) \<Rightarrow>
             scan_targets i head1 js
               (g', ss[i := self', j := other'], calls @ [(i, j, r)]))
      else scan_targets i head1 js (g, ss, calls))"

declare scan_targets.simps(2) [simp del]

text \<open>The loop over \<open>i, snake1\<close>.\<close>

fun scan_attackers :: "nat list \<Rightarrow> pass \<Rightarrow> error + pass" where
  "scan_attackers [] st = Inr st"
| "scan_attackers (i # is) (g, ss, calls) =
     (case body (ss ! i) of
        [] \<Rightarrow> scan_attackers is (g, ss, calls)
      | head1 # _ \<Rightarrow>
          (case scan_targets i head1 [0..<length ss] (g, ss, calls) of
             Inl e \<Rightarrow> Inl e
           | Inr st \<Rightarrow> scan_attackers is st))"

definition check_snake_collisions ::
  "plugin \<Rightarrow> error + (plugin \<times> (nat \<times> nat \<times> bool) list)" where
  "check_snake_collisions p =
     (case scan_attackers [0..<length (snakes p)] (game p, snakes p, []) of
        Inl e \<Rightarrow> Inl e
      | Inr (g, ss, calls) \<Rightarrow> Inr (p\<lparr>game := g, snakes := ss\<rparr>, calls))"

text \<open>
  \<open>try_spawn_snake\<close>. \<open>offsets k\<close> is the pair \<open>(offset_x, offset_y)\<close> that the two
  calls of \<open>random.randint(-10, 10)\<close> return in trial \<open>k\<close>, and \<open>c\<close> the draw of the new
  snake's constructor.
\<close>

definition plant_at :: "game_obj \<Rightarrow> pos \<Rightarrow> bool" where
  "plant_at g off = (chr (location_id (int_world g off)) = CHR ''@'')"

fun spawn_trials :: "game_obj \<Rightarrow> (nat \<Rightarrow> pos) \<Rightarrow> nat list \<Rightarrow> pos option" where
  "spawn_trials g offsets [] = None"
| "spawn_trials g offsets (k # ks) =
     (if plant_at g (offsets k) then Some (offsets k) else spawn_trials g offsets ks)"

definition try_spawn_snake :: "(nat \<Rightarrow> pos) \<Rightarrow> choice \<Rightarrow> plugin \<Rightarrow> plugin \<times> bool" where
  "try_spawn_snake offsets c p =
     (if max_snakes \<le> length (snakes p) then (p, False)
      else case spawn_trials (game p) offsets [0..<10] of
             None \<Rightarrow> (p, False)
           | Some off \<Rightarrow>
               (p\<lparr>snakes := snakes p @ [Snake_init (fst off) (snd off) c]\<rparr>, True))"

text \<open>\<open>SnakePlugin.update(dt)\<close>.\<close>

definition SnakePlugin_update ::
  "(string \<Rightarrow> string) \<Rightarrow> (nat \<Rightarrow> choice option) \<Rightarrow> (nat \<Rightarrow> pos) \<Rightarrow> choice \<Rightarrow> real
     \<Rightarrow> plugin \<Rightarrow> error + plugin" where
  "SnakePlugin_update md5 turns offsets c dt p =
     (if \<not> active p then Inr p
      else case update_snakes md5 turns dt 0 (game p) (snakes p) of
             Inl e \<Rightarrow> Inl e
           | Inr gss \<Rightarrow>
               (case check_snake_collisions (p\<lparr>game := fst gss, snakes := snd gss\<rparr>) of
                  Inl e \<Rightarrow> Inl e
                | Inr pc \<Rightarrow>
                    (let p1 = fst pc;
                         p2 = p1\<lparr>spawn_timer := spawn_timer p1 - dt\<rparr>
                     in if spawn_timer p2 \<le> 0
                        then Inr (fst (try_spawn_snake offsets c
                                         (p2\<lparr>spawn_timer := spawn_interval\<rparr>)))
                        else Inr p2)))"

subsection \<open>A notion for the proofs about the collision pass\<close>

text \<open>
  Relative to the snakes \<open>ss0\<close> at the start of a pass: the list has kept its length,
  every snake has kept its head (or its empty body), and the snake at \<open>b\<close> has kept its
  whole body.
\<close>

definition undisturbed :: "snake list \<Rightarrow> nat \<Rightarrow> snake list \<Rightarrow> bool" where
  "undisturbed ss0 b ss \<longleftrightarrow>
     length ss = length ss0 \<and>
     (\<forall>k < length ss0. take 1 (body (ss ! k)) = take 1 (body (ss0 ! k))) \<and>
     body (ss ! b) = body (ss0 ! b)"

subsection \<open>Example states\<close>

text \<open>
  A game at the world origin, and three snakes. The head of \<open>snake_a\<close> lies on segment
  2 of \<open>snake_b\<close>, the head of \<open>snake_b\<close> lies on segment 2 of \<open>snake_a\<close>, and the head
  of \<open>snake_c\<close> lies on segment 2 of \<open>snake_b\<close> as well.
\<close>

definition game0 :: game_obj where
  "game0 =
     \<lparr>world_x = 0, world_y = 0, spaces = [], saves = 0, message = [], message_timeout = 0\<rparr>"

definition snake_a :: snake where
  "snake_a =
     \<lparr>x_attr = 5, y_attr = 0, length_attr = 4, body = [(2, 0), (1, 0), (0, 0), (-1, 0)],
      direction = (1, 0), time_to_move = 1 / 2, rattles = 0\<rparr>"

definition snake_b :: snake where
  "snake_b =
     \<lparr>x_attr = -3, y_attr = 0, length_attr = 5,
      body = [(0, 0), (1, 0), (2, 0), (3, 0), (4, 0)],
      direction = (-1, 0), time_to_move = 1 / 2, rattles = 0\<rparr>"

definition snake_c :: snake where
  "snake_c =
     \<lparr>x_attr = 2, y_attr = 3, length_attr = 3, body = [(2, 0), (2, 1), (2, 2)],
      direction = (0, -1), time_to_move = 1 / 2, rattles = 0\<rparr>"

text \<open>
  A new snake after its first move, and a snake of length 14 one step west of an egg.
\<close>

definition snake_new_moved :: snake where
  "snake_new_moved =
     \<lparr>x_attr = 0, y_attr = 0, length_attr = 3, body = [(0, -1), (0, 0)],
      direction = (0, -1), time_to_move = 1 / 2, rattles = 0\<rparr>"

definition snake_d :: snake where
  "snake_d =
     \<lparr>x_attr = 47, y_attr = 0, length_attr = 14, body = [(47, 0)],
      direction = (1, 0), time_to_move = 0, rattles = 0\<rparr>"

section \<open>Properties\<close>

subsection \<open>Library functions and the world\<close>

lemma chr_eq_iff: "0 \<le> n \<Longrightarrow> n < 256 \<Longrightarrow> chr n = c \<longleftrightarrow> n = of_char c"
  unfolding chr_def
  by (metis char_of_comp_of_char comp_apply id_apply mod_pos_pos_trivial of_char_of)

lemma location_id_range: "0 \<le> location_id w \<and> location_id w < 256"
  unfolding location_id_def
proof -
  have "(fst w + snd w * 1000) mod 127 < 127" by simp
  moreover have "0 \<le> (fst w + snd w * 1000) mod 127" by simp
  ultimately show "0 \<le> (fst w + snd w * 1000) mod 127 \<and> (fst w + snd w * 1000) mod 127 < 256"
    by linarith
qed

lemma egg_iff: "chr (location_id w) = CHR ''0'' \<longleftrightarrow> location_id w = 48"
  using location_id_range [of w] by (simp add: chr_eq_iff)

lemma plant_iff: "chr (location_id w) = CHR ''@'' \<longleftrightarrow> location_id w = 64"
  using location_id_range [of w] by (simp add: chr_eq_iff)

lemma py_round_of_int: "py_round (of_int i) = i"
  by (simp add: py_round_def)

lemma int_world_of_int:
  "world_x g = of_int wx \<Longrightarrow> world_y g = of_int wy \<Longrightarrow>
   int_world g (px, py) = (px + wx, py + wy)"
  using py_round_of_int [of "px + wx"] py_round_of_int [of "py + wy"]
  by (simp add: int_world_def)

lemma int_world_game0: "int_world game0 p = p"
  using int_world_of_int [of game0 0 0 "fst p" "snd p"] by (simp add: game0_def)

text \<open>
  The trimming loop in closed form: it raises exactly when the bound is negative and
  the body is longer than the bound; otherwise it keeps the first \<open>n\<close> segments.
\<close>

lemma trim_eq:
  "trim b n =
     (if n < int (length b)
      then (if n < 0 then Inl IndexError else Inr (take (nat n) b))
      else Inr b)"
proof (induction b n rule: trim.induct)
  case (1 b n)
  show ?case
  proof (cases "n < int (length b)")
    case False
    then show ?thesis by (subst trim.simps) simp
  next
    case True
    show ?thesis
    proof (cases "b = []")
      case True
      with \<open>n < int (length b)\<close> show ?thesis
        by (subst trim.simps) (simp add: pop_last_def)
    next
      case False
      have eq: "trim b n = trim (butlast b) n"
        using True False by (subst trim.simps) (simp add: pop_last_def)
      have ih: "trim (butlast b) n =
         (if n < int (length (butlast b))
          then (if n < 0 then Inl IndexError else Inr (take (nat n) (butlast b)))
          else Inr (butlast b))"
        using "1.IH" [of "butlast b"] True False by (simp add: pop_last_def)
      show ?thesis
      proof (cases "n < int (length (butlast b))")
        case True
        have "nat n < length b"
          using \<open>n < int (length b)\<close> \<open>b \<noteq> []\<close> by (cases "0 \<le> n") auto
        then have "take (nat n) (butlast b) = take (nat n) b"
          by (rule take_butlast)
        with eq ih True \<open>n < int (length b)\<close> show ?thesis by simp
      next
        case False
        then have "n = int (length b) - 1" using \<open>n < int (length b)\<close> by simp
        then have "nat n = length b - 1" by simp
        then have "take (nat n) b = butlast b" by (simp add: butlast_conv_take)
        with eq ih False \<open>n < int (length b)\<close> \<open>b \<noteq> []\<close> show ?thesis by auto
      qed
    qed
  qed
qed

subsection \<open>Snake.update\<close>

text \<open>
  A call that moves, in one equation: the snake has a head \<open>(hx, hy)\<close>, \<open>(dx, dy)\<close> is
  the direction after the draws, \<open>w\<close> the world position of the new head and \<open>n\<close> the
  length after the egg test. The call raises exactly when \<open>n + rattles\<close> is negative.
\<close>

lemma Snake_update_move_eq:
  assumes "time_to_move s - dt \<le> 0" and "body s = (hx, hy) # bs"
    and "(case turn of None \<Rightarrow> direction s | Some c \<Rightarrow> chosen c) = (dx, dy)"
    and "w = int_world g (hx + dx, hy + dy)"
    and "n = (if location_id w = 48 \<and> length_attr s < 15
              then length_attr s + 1 else length_attr s)"
  shows "Snake_update md5 turn dt (g, s) =
     (if n + rattles s < 0 then Inl IndexError
      else Inr (if location_id w = 48
                then g\<lparr>spaces := AList.update (md5 (str_int (fst w) @ '','' @ str_int (snd w)))
                                   w (spaces g),
                       saves := Suc (saves g)\<rparr>
                else g,
                s\<lparr>length_attr := n,
                  body := take (nat (n + rattles s)) ((hx + dx, hy + dy) # body s),
                  direction := (dx, dy), time_to_move := 1 / 2\<rparr>))"
  using assms
  by (cases turn)
     (auto simp: Snake_update_def Let_def trim_eq egg_iff max_length_def move_interval_def)


lemma Snake_update_idle:
  "\<not> time_to_move s - dt \<le> 0 \<Longrightarrow>
   Snake_update md5 turn dt (g, s) = Inr (g, s\<lparr>time_to_move := time_to_move s - dt\<rparr>)"
  by (simp add: Snake_update_def Let_def)

lemma Snake_update_empty:
  "time_to_move s - dt \<le> 0 \<Longrightarrow> body s = [] \<Longrightarrow>
   Snake_update md5 turn dt (g, s) = Inl IndexError"
  by (cases turn) (simp_all add: Snake_update_def Let_def)

text \<open>What a move that returns does to the snake.\<close>

lemma Snake_update_move:
  assumes move: "time_to_move s - dt \<le> 0"
    and ret: "Snake_update md5 turn dt (g, s) = Inr (g', s')"
  shows "int (length (body s')) = min (int (length (body s)) + 1) (length_attr s' + rattles s')"
    and "drop 1 (body s') = take (nat (length_attr s' + rattles s') - 1) (body s)"
    and "rattles s' = rattles s"
    and "length_attr s' = length_attr s \<or>
         length_attr s < 15 \<and> length_attr s' = length_attr s + 1"
    and "body s \<noteq> []"
proof -
  show ne: "body s \<noteq> []"
    using Snake_update_empty [OF move, of md5 turn g] ret by auto
  then obtain hx hy bs where b: "body s = (hx, hy) # bs"
    by (cases "body s") auto
  obtain dx dy where d: "(case turn of None \<Rightarrow> direction s | Some c \<Rightarrow> chosen c) = (dx, dy)"
    by (cases "case turn of None \<Rightarrow> direction s | Some c \<Rightarrow> chosen c") auto
  define w where "w = int_world g (hx + dx, hy + dy)"
  define n where "n = (if location_id w = 48 \<and> length_attr s < 15
              then length_attr s + 1 else length_attr s)"
  note eq = Snake_update_move_eq [OF move b d w_def n_def, of md5]
  from eq ret have nonneg: "\<not> n + rattles s < 0"
    by (auto split: if_splits)
  from eq ret nonneg
  have s': "s' = s\<lparr>length_attr := n,
                   body := take (nat (n + rattles s)) ((hx + dx, hy + dy) # body s),
                   direction := (dx, dy), time_to_move := 1 / 2\<rparr>"
    by simp
  show "rattles s' = rattles s" by (simp add: s')
  show "length_attr s' = length_attr s \<or>
         length_attr s < 15 \<and> length_attr s' = length_attr s + 1"
    by (simp add: s' n_def)
  show "int (length (body s')) = min (int (length (body s)) + 1) (length_attr s' + rattles s')"
    using nonneg by (simp add: s')
  show "drop 1 (body s') = take (nat (length_attr s' + rattles s') - 1) (body s)"
    by (simp add: s' drop_take)
qed

lemma Snake_update_returns:
  assumes "body s \<noteq> []" and "0 \<le> length_attr s + rattles s"
  shows "\<exists>g' s'. Snake_update md5 turn dt (g, s) = Inr (g', s')"
proof (cases "time_to_move s - dt \<le> 0")
  case False
  then show ?thesis by (simp add: Snake_update_idle)
next
  case True
  from assms(1) obtain hx hy bs where b: "body s = (hx, hy) # bs"
    by (cases "body s") auto
  obtain dx dy where d: "(case turn of None \<Rightarrow> direction s | Some c \<Rightarrow> chosen c) = (dx, dy)"
    by (cases "case turn of None \<Rightarrow> direction s | Some c \<Rightarrow> chosen c") auto
  define w where "w = int_world g (hx + dx, hy + dy)"
  define n where "n = (if location_id w = 48 \<and> length_attr s < 15
              then length_attr s + 1 else length_attr s)"
  have "\<not> n + rattles s < 0" using assms(2) by (simp add: n_def)
  with Snake_update_move_eq [OF True b d w_def n_def, of md5] show ?thesis by simp
qed

lemma Snake_update_length_attr:
  assumes "Snake_update md5 turn dt (g, s) = Inr (g', s')"
  shows "length_attr s' = length_attr s \<or>
         length_attr s < 15 \<and> length_attr s' = length_attr s + 1"
proof (cases "time_to_move s - dt \<le> 0")
  case True
  then show ?thesis using assms by (rule Snake_update_move(4))
next
  case False
  then show ?thesis using assms by (auto simp: Snake_update_idle)
qed

lemma Snake_update_invariant:
  assumes "Snake_update md5 turn dt (g, s) = Inr (g', s')"
    and "body s \<noteq> []" and "1 \<le> length_attr s + rattles s"
  shows "body s' \<noteq> [] \<and> 1 \<le> length_attr s' + rattles s'"
proof (cases "time_to_move s - dt \<le> 0")
  case True
  have r: "rattles s' = rattles s" using True assms(1) by (rule Snake_update_move(3))
  have l: "length_attr s \<le> length_attr s'"
    using Snake_update_length_attr [OF assms(1)] by auto
  have "int (length (body s')) = min (int (length (body s)) + 1) (length_attr s' + rattles s')"
    using True assms(1) by (rule Snake_update_move(1))
  with r l assms(3) have "1 \<le> int (length (body s'))" by simp
  then have "body s' \<noteq> []" by auto
  with r l assms(3) show ?thesis by simp
next
  case False
  then show ?thesis using assms by (auto simp: Snake_update_idle)
qed

lemma Snake_updates_length_le:
  "length_attr s \<le> 15 \<Longrightarrow> Snake_updates md5 calls s = Inr s' \<Longrightarrow> length_attr s' \<le> 15"
proof (induction calls arbitrary: s)
  case Nil
  then show ?case by simp
next
  case (Cons call calls)
  obtain turn dt g where call: "call = (turn, dt, g)" by (cases call)
  from Cons.prems(2) call obtain g1 s1
    where step: "Snake_update md5 turn dt (g, s) = Inr (g1, s1)"
      and rest: "Snake_updates md5 calls s1 = Inr s'"
    by (auto split: sum.splits)
  from Snake_update_length_attr [OF step] Cons.prems(1) have "length_attr s1 \<le> 15" by auto
  then show ?case using rest by (rule Cons.IH)
qed

lemma Snake_updates_return:
  "body s \<noteq> [] \<Longrightarrow> 1 \<le> length_attr s + rattles s \<Longrightarrow> \<exists>s'. Snake_updates md5 calls s = Inr s'"
proof (induction calls arbitrary: s)
  case Nil
  then show ?case by simp
next
  case (Cons call calls)
  obtain turn dt g where call: "call = (turn, dt, g)" by (cases call)
  from Cons.prems have "\<exists>g1 s1. Snake_update md5 turn dt (g, s) = Inr (g1, s1)"
    by (intro Snake_update_returns) auto
  then obtain g1 s1 where step: "Snake_update md5 turn dt (g, s) = Inr (g1, s1)" by blast
  from Snake_update_invariant [OF step Cons.prems]
  have "\<exists>s'. Snake_updates md5 calls s1 = Inr s'" by (intro Cons.IH) auto
  then show ?case using step call by simp
qed

text \<open>
  Claim C1, as stated, fails: a new snake has one segment and \<open>length = 3\<close>; after its
  first move it has two segments, not three.
\<close>

theorem update_first_move_counterexample:
  "time_to_move (Snake_init 0 0 Choice0) - 1 / 10 \<le> 0 \<and>
   Snake_update id None (1 / 10) (game0, Snake_init 0 0 Choice0) = Inr (game0, snake_new_moved) \<and>
   int (length (body snake_new_moved)) \<noteq> length_attr snake_new_moved + rattles snake_new_moved"
proof -
  have "Snake_update id None (1 / 10) (game0, Snake_init 0 0 Choice0) = Inr (game0, snake_new_moved)"
    by (subst Snake_update_move_eq [where hx = 0 and hy = 0 and bs = "[]" and dx = 0 and dy = "- 1"
          and w = "(0, - 1)" and n = 3])
       (simp_all add: Snake_init_def int_world_game0 location_id_def snake_new_moved_def)
  then show ?thesis by (simp add: Snake_init_def snake_new_moved_def)
qed

text \<open>
  Claim C1, amended. After a move that returns, the body has
  \<open>min(len(body before) + 1, length + rattles)\<close> segments: never more than
  \<open>length + rattles\<close>, and exactly that many as soon as the body before the move had
  at least \<open>length + rattles - 1\<close>.
\<close>

theorem update_body_length:
  "time_to_move s - dt \<le> 0 \<Longrightarrow> Snake_update md5 turn dt (g, s) = Inr (g', s') \<Longrightarrow>
   int (length (body s')) = min (int (length (body s)) + 1) (length_attr s' + rattles s')"
  by (rule Snake_update_move(1))

theorem update_body_length_witness:
  "time_to_move snake_c - 1 / 2 \<le> 0 \<and>
   Snake_update id None (1 / 2) (game0, snake_c)
     = Inr (game0, snake_c\<lparr>body := [(2, - 1), (2, 0), (2, 1)]\<rparr>) \<and>
   int (length [(2, - 1), (2, 0), (2 :: int, 1 :: int)]) = min (int (length (body snake_c)) + 1) 3"
proof -
  have h1: "time_to_move snake_c - 1 / 2 \<le> 0" by (simp add: snake_c_def)
  have h2: "Snake_update id None (1 / 2) (game0, snake_c)
     = Inr (game0, snake_c\<lparr>body := [(2, - 1), (2, 0), (2, 1)]\<rparr>)"
    by (subst Snake_update_move_eq [where hx = 2 and hy = 0 and bs = "[(2, 1), (2, 2)]"
          and dx = 0 and dy = "- 1" and w = "(2, - 1)" and n = 3])
       (simp_all add: snake_c_def int_world_game0 location_id_def)
  show ?thesis
    using h1 h2 update_body_length [OF h1 h2] by (simp add: snake_c_def)
qed

text \<open>
  Claim C4. From a snake with \<open>length \<le> 15\<close>, any number of calls of \<open>update\<close>, with
  any draws, time steps and games, ends with \<open>length \<le> 15\<close>; the calls all return when
  the snake has a head and \<open>length + rattles \<ge> 1\<close>; and one call leaves \<open>length\<close> as it
  is or adds 1, the latter only when \<open>length < 15\<close>.
\<close>

theorem growth_saturates:
  "length_attr s \<le> 15 \<Longrightarrow>
   (\<forall>s'. Snake_updates md5 calls s = Inr s' \<longrightarrow> length_attr s' \<le> 15) \<and>
   (body s \<noteq> [] \<and> 1 \<le> length_attr s + rattles s \<longrightarrow>
      (\<exists>s'. Snake_updates md5 calls s = Inr s')) \<and>
   (\<forall>g' s'. Snake_update md5 turn dt (g, s) = Inr (g', s') \<longrightarrow>
      length_attr s' = length_attr s \<or>
      length_attr s < 15 \<and> length_attr s' = length_attr s + 1)"
  using Snake_updates_length_le [of s md5 calls] Snake_updates_return [of s md5 calls]
    Snake_update_length_attr [of md5 turn dt g s]
  by blast

theorem growth_saturates_witness:
  "length_attr snake_d \<le> 15 \<and>
   Snake_updates id [(None, 1 / 2, game0), (None, 1 / 2, game0\<lparr>world_x := - 1\<rparr>)] snake_d
     = Inr (snake_d\<lparr>length_attr := 15, body := [(49, 0), (48, 0), (47, 0)],
                    time_to_move := 1 / 2\<rparr>) \<and>
   Snake_update id None (1 / 2) (game0, snake_d)
     = Inr (game0\<lparr>spaces := [(''48,0'', (48, 0))], saves := 1\<rparr>,
            snake_d\<lparr>length_attr := 15, body := [(48, 0), (47, 0)], time_to_move := 1 / 2\<rparr>)"
proof -
  have h: "length_attr snake_d \<le> 15" by (simp add: snake_d_def)
  have k: "str_int 48 = ''48''" "str_int 0 = ''0''"
    by (simp_all add: str_int_def)
  have u: "Snake_update id None (1 / 2) (game0, snake_d)
     = Inr (game0\<lparr>spaces := [(''48,0'', (48, 0))], saves := 1\<rparr>,
            snake_d\<lparr>length_attr := 15, body := [(48, 0), (47, 0)], time_to_move := 1 / 2\<rparr>)"
    by (subst Snake_update_move_eq [where hx = 47 and hy = 0 and bs = "[]"
          and dx = 1 and dy = 0 and w = "(48, 0)" and n = 15])
       (simp_all add: snake_d_def int_world_game0 location_id_def k, simp add: game0_def)
  have w2: "int_world (game0\<lparr>world_x := - 1\<rparr>) (49, 0) = (48, 0)"
    using int_world_of_int [of "game0\<lparr>world_x := - 1\<rparr>" "- 1" 0 49 0] by (simp add: game0_def)
  have u2: "Snake_update id None (1 / 2)
       (game0\<lparr>world_x := - 1\<rparr>,
        snake_d\<lparr>length_attr := 15, body := [(48, 0), (47, 0)], time_to_move := 1 / 2\<rparr>)
     = Inr (game0\<lparr>world_x := - 1, spaces := [(''48,0'', (48, 0))], saves := 1\<rparr>,
            snake_d\<lparr>length_attr := 15, body := [(49, 0), (48, 0), (47, 0)],
                    time_to_move := 1 / 2\<rparr>)"
    by (subst Snake_update_move_eq [where hx = 48 and hy = 0 and bs = "[(47, 0)]"
          and dx = 1 and dy = 0 and w = "(48, 0)" and n = 15])
       (simp_all add: snake_d_def w2 location_id_def k, simp add: game0_def)
  have r: "Snake_updates id [(None, 1 / 2, game0), (None, 1 / 2, game0\<lparr>world_x := - 1\<rparr>)] snake_d
     = Inr (snake_d\<lparr>length_attr := 15, body := [(49, 0), (48, 0), (47, 0)],
                    time_to_move := 1 / 2\<rparr>)"
    by (simp add: u u2)
  show ?thesis
    using h r u growth_saturates [OF h, of id
        "[(None, 1 / 2, game0), (None, 1 / 2, game0\<lparr>world_x := - 1\<rparr>)]" None "1 / 2" game0]
    by simp
qed

text \<open>
  Claim C10. A new snake has the one segment \<open>(x, y)\<close>, \<open>length = 3\<close> and
  \<open>rattles = 0\<close>, so fewer segments than \<open>length + rattles\<close>. The trimming loop
  returns a body that is not too long as it is, and after the first call of \<open>update\<close>
  the snake has two segments (one if \<open>dt\<close> is negative, when it does not move), still
  fewer than \<open>length + rattles\<close>.
\<close>

theorem new_snake_body:
  "body (Snake_init x y c) = [(x, y)] \<and>
   length_attr (Snake_init x y c) = 3 \<and> rattles (Snake_init x y c) = 0 \<and>
   int (length (body (Snake_init x y c)))
     < length_attr (Snake_init x y c) + rattles (Snake_init x y c) \<and>
   (\<forall>b n. int (length b) \<le> n \<longrightarrow> trim b n = Inr b) \<and>
   (\<exists>g' s'. Snake_update md5 turn dt (g, Snake_init x y c) = Inr (g', s') \<and>
      length (body s') = (if 0 \<le> dt then 2 else 1) \<and>
      int (length (body s')) < length_attr s' + rattles s')"
proof -
  let ?s = "Snake_init x y c"
  have init: "body ?s = [(x, y)]" "length_attr ?s = 3" "rattles ?s = 0" "time_to_move ?s = 0"
    by (simp_all add: Snake_init_def)
  have keep: "\<forall>b n. int (length b) \<le> n \<longrightarrow> trim b n = Inr b"
    by (simp add: trim_eq)
  have "\<exists>g' s'. Snake_update md5 turn dt (g, ?s) = Inr (g', s')"
    by (rule Snake_update_returns) (simp_all add: init)
  then obtain g' s' where step: "Snake_update md5 turn dt (g, ?s) = Inr (g', s')" by blast
  have "length (body s') = (if 0 \<le> dt then 2 else 1) \<and>
      int (length (body s')) < length_attr s' + rattles s'"
  proof (cases "0 \<le> dt")
    case True
    then have t: "time_to_move ?s - dt \<le> 0" by (simp add: init)
    have r: "rattles s' = rattles ?s" using t step by (rule Snake_update_move(3))
    have l: "length_attr ?s \<le> length_attr s'" using Snake_update_length_attr [OF step] by auto
    have "int (length (body s')) = min (int (length (body ?s)) + 1) (length_attr s' + rattles s')"
      using t step by (rule Snake_update_move(1))
    with r l True show ?thesis by (simp add: init)
  next
    case False
    then have "\<not> time_to_move ?s - dt \<le> 0" by (simp add: init)
    from Snake_update_idle [OF this, of md5 turn g] step False show ?thesis
      by (auto simp: init)
  qed
  with step keep init show ?thesis by auto
qed

theorem new_snake_body_witness:
  "body (Snake_init 3 (- 7) Choice2) = [(3, - 7)] \<and>
   trim [(3, - 6), (3, - 7)] 3 = Inr [(3, - 6), (3, - 7)] \<and>
   Snake_update id None (1 / 10) (game0, Snake_init 3 (- 7) Choice2)
     = Inr (game0, (Snake_init 3 (- 7) Choice2)
                     \<lparr>body := [(3, - 6), (3, - 7)], time_to_move := 1 / 2\<rparr>)"
proof -
  have u: "Snake_update id None (1 / 10) (game0, Snake_init 3 (- 7) Choice2)
     = Inr (game0, (Snake_init 3 (- 7) Choice2)
                     \<lparr>body := [(3, - 6), (3, - 7)], time_to_move := 1 / 2\<rparr>)"
    by (subst Snake_update_move_eq [where hx = 3 and hy = "- 7" and bs = "[]"
          and dx = 0 and dy = 1 and w = "(3, - 6)" and n = 3])
       (simp_all add: Snake_init_def int_world_game0 location_id_def)
  have k: "int (length [(3, - 6), (3 :: int, - 7 :: int)]) \<le> 3" by simp
  from new_snake_body [of 3 "- 7" Choice2 id None "1 / 10" game0]
  have "trim [(3, - 6), (3, - 7)] 3 = Inr [(3, - 6), (3, - 7)]" using k by blast
  with u show ?thesis by (simp add: Snake_init_def)
qed

subsection \<open>Snake.bite\<close>

text \<open>\<open>bite\<close> never raises: both of its outcomes in one equation.\<close>

lemma bite_eq:
  "bite g A B =
     Inr (if 3 < length (body B)
          then (g\<lparr>message := bite_message, message_timeout := 2\<rparr>,
                A\<lparr>rattles := rattles A + 2\<rparr>,
                B\<lparr>body := take (length (body B) div 2) (body B)
                           @ drop (Suc (length (body B) div 2)) (body B),
                  length_attr := length_attr B - 1\<rparr>,
                True)
          else (g, A\<lparr>rattles := rattles A + 2\<rparr>, B, False))"
proof -
  have "3 < length (body B) \<Longrightarrow> length (body B) div 2 < length (body B)" by simp
  then show ?thesis
    by (simp add: bite_def middle_index_def pop_at_def Let_def bite_message_def)
qed

text \<open>
  Claim C2. When \<open>B\<close> has more than 3 segments, \<open>A.bite(B)\<close> removes the segment of
  \<open>B\<close> at index \<open>len(B.body) // 2\<close> and no other, takes 1 from \<open>B.length\<close>, adds 2 to
  \<open>A.rattles\<close>, sets the message with a timeout of 2 seconds, and returns \<open>True\<close>;
  nothing else changes.
\<close>

theorem bite_long_target:
  "3 < length (body B) \<Longrightarrow>
   bite g A B =
     Inr (g\<lparr>message := bite_message, message_timeout := 2\<rparr>,
          A\<lparr>rattles := rattles A + 2\<rparr>,
          B\<lparr>body := take (length (body B) div 2) (body B)
                     @ drop (Suc (length (body B) div 2)) (body B),
            length_attr := length_attr B - 1\<rparr>,
          True)"
  by (simp add: bite_eq)

theorem bite_long_target_witness:
  "3 < length (body snake_b) \<and>
   bite game0 snake_a snake_b =
     Inr (game0\<lparr>message := bite_message, message_timeout := 2\<rparr>,
          snake_a\<lparr>rattles := 2\<rparr>,
          snake_b\<lparr>body := [(0, 0), (1, 0), (3, 0), (4, 0)], length_attr := 4\<rparr>,
          True)"
proof -
  have h: "3 < length (body snake_b)" by (simp add: snake_b_def)
  show ?thesis
    using h bite_long_target [OF h, of game0 snake_a]
    by (simp add: snake_a_def snake_b_def)
qed

text \<open>
  Claim C3. When \<open>B\<close> has 3 segments or fewer, \<open>A.bite(B)\<close> leaves \<open>B\<close> and the game
  (so the message) as they are and returns \<open>False\<close>, and \<open>A.rattles\<close> still grows by 2.
\<close>

theorem bite_short_target:
  "length (body B) \<le> 3 \<Longrightarrow>
   bite g A B = Inr (g, A\<lparr>rattles := rattles A + 2\<rparr>, B, False)"
  by (simp add: bite_eq)

theorem bite_short_target_witness:
  "length (body snake_c) \<le> 3 \<and>
   bite game0 snake_a snake_c = Inr (game0, snake_a\<lparr>rattles := 2\<rparr>, snake_c, False)"
proof -
  have h: "length (body snake_c) \<le> 3" by (simp add: snake_c_def)
  show ?thesis
    using h bite_short_target [OF h, of game0 snake_a]
    by (simp add: snake_a_def)
qed

text \<open>
  Claim C9. When \<open>B\<close> has more than 3 segments, the index \<open>len(B.body) // 2\<close> that
  \<open>bite\<close> removes is not 0 and is below \<open>len(B.body)\<close>: \<open>pop\<close> does not raise, and the
  head of \<open>B\<close> stays where it is.
\<close>

theorem middle_index_in_bounds:
  "3 < length (body B) \<Longrightarrow>
   0 < middle_index B \<and> middle_index B < length (body B) \<and>
   (\<exists>b. pop_at (middle_index B) (body B) = Inr b \<and> b ! 0 = body B ! 0)"
  by (simp add: middle_index_def pop_at_def nth_append)

theorem middle_index_in_bounds_witness:
  "3 < length (body snake_a) \<and> middle_index snake_a = 2 \<and>
   pop_at (middle_index snake_a) (body snake_a) = Inr [(2, 0), (1, 0), (-1, 0)]"
proof -
  have h: "3 < length (body snake_a)" by (simp add: snake_a_def)
  show ?thesis
    using h middle_index_in_bounds [OF h]
    by (simp add: snake_a_def middle_index_def pop_at_def)
qed

subsection \<open>SnakePlugin.check_snake_collisions\<close>

lemma on_segment_iff: "on_segment h segs \<longleftrightarrow> h \<in> set segs"
  by (induction segs) auto

text \<open>One round of the loop over \<open>j\<close>, with \<open>bite\<close> unfolded.\<close>

lemma scan_targets_skip:
  "i = j \<or> length (body (ss ! j)) < 2 \<or> h \<notin> set (drop 1 (body (ss ! j))) \<Longrightarrow>
   scan_targets i h (j # js) (g, ss, calls) = scan_targets i h js (g, ss, calls)"
  by (auto simp: on_segment_iff scan_targets.simps(2))

lemma scan_targets_bite:
  assumes "i \<noteq> j" and "h \<in> set (drop 1 (body (ss ! j)))"
  shows "scan_targets i h (j # js) (g, ss, calls) =
     scan_targets i h js
       (if 3 < length (body (ss ! j))
        then (g\<lparr>message := bite_message, message_timeout := 2\<rparr>,
              ss[i := (ss ! i)\<lparr>rattles := rattles (ss ! i) + 2\<rparr>,
                 j := (ss ! j)\<lparr>body := take (length (body (ss ! j)) div 2) (body (ss ! j))
                                    @ drop (Suc (length (body (ss ! j)) div 2)) (body (ss ! j)),
                               length_attr := length_attr (ss ! j) - 1\<rparr>],
              calls @ [(i, j, True)])
        else (g, ss[i := (ss ! i)\<lparr>rattles := rattles (ss ! i) + 2\<rparr>, j := ss ! j],
              calls @ [(i, j, False)]))"
proof -
  from assms(2) have "\<not> length (body (ss ! j)) < 2"
    by (cases "body (ss ! j)") auto
  with assms show ?thesis
    by (simp add: on_segment_iff bite_eq scan_targets.simps(2))
qed

lemma scan_targets_calls:
  "\<exists>g' ss' calls'. scan_targets i h js (g, ss, calls) = Inr (g', ss', calls') \<and>
     length ss' = length ss \<and> set calls \<subseteq> set calls'"
proof (induction js arbitrary: g ss calls)
  case Nil
  show ?case by simp
next
  case (Cons j js)
  show ?case
  proof (cases "i = j \<or> length (body (ss ! j)) < 2 \<or> h \<notin> set (drop 1 (body (ss ! j)))")
    case True
    then show ?thesis using Cons.IH [of g ss calls] by (simp only: scan_targets_skip)
  next
    case False
    then have b: "i \<noteq> j" "h \<in> set (drop 1 (body (ss ! j)))" by auto
    show ?thesis
    proof (cases "3 < length (body (ss ! j))")
      case True
      let ?g = "g\<lparr>message := bite_message, message_timeout := 2\<rparr>"
      let ?ss = "ss[i := (ss ! i)\<lparr>rattles := rattles (ss ! i) + 2\<rparr>,
                 j := (ss ! j)\<lparr>body := take (length (body (ss ! j)) div 2) (body (ss ! j))
                                    @ drop (Suc (length (body (ss ! j)) div 2)) (body (ss ! j)),
                               length_attr := length_attr (ss ! j) - 1\<rparr>]"
      from Cons.IH [of ?g ?ss "calls @ [(i, j, True)]"] True
      show ?thesis by (auto simp: scan_targets_bite [OF b])
    next
      case False
      let ?ss = "ss[i := (ss ! i)\<lparr>rattles := rattles (ss ! i) + 2\<rparr>, j := ss ! j]"
      from Cons.IH [of g ?ss "calls @ [(i, j, False)]"] False
      show ?thesis by (auto simp: scan_targets_bite [OF b])
    qed
  qed
qed

lemma scan_attackers_calls:
  "\<exists>g' ss' calls'. scan_attackers is (g, ss, calls) = Inr (g', ss', calls') \<and>
     length ss' = length ss \<and> set calls \<subseteq> set calls'"
proof (induction "is" arbitrary: g ss calls)
  case Nil
  show ?case by simp
next
  case (Cons i "is")
  show ?case
  proof (cases "body (ss ! i)")
    case Nil
    then show ?thesis using Cons.IH [of g ss calls] by simp
  next
    case (Cons head1 segs)
    from scan_targets_calls [of i head1 "[0..<length ss]" g ss calls]
    obtain g1 ss1 calls1
      where 1: "scan_targets i head1 [0..<length ss] (g, ss, calls) = Inr (g1, ss1, calls1)"
        and l1: "length ss1 = length ss" and c1: "set calls \<subseteq> set calls1"
      by blast
    from Cons.IH [of g1 ss1 calls1]
    obtain g2 ss2 calls2
      where 2: "scan_attackers is (g1, ss1, calls1) = Inr (g2, ss2, calls2)"
        and l2: "length ss2 = length ss1" and c2: "set calls1 \<subseteq> set calls2"
      by blast
    from 1 2 l1 l2 c1 c2 Cons show ?thesis by auto
  qed
qed

lemma scan_targets_append:
  "scan_targets i h (js @ js') st =
     (case scan_targets i h js st of Inl e \<Rightarrow> Inl e | Inr st' \<Rightarrow> scan_targets i h js' st')"
proof (induction js arbitrary: st)
  case Nil
  show ?case by simp
next
  case (Cons j js)
  obtain g ss calls where st: "st = (g, ss, calls)" by (cases st)
  show ?case
    unfolding st by (simp add: scan_targets.simps(2) Cons.IH bite_eq)
qed

lemma scan_attackers_append:
  "scan_attackers (is @ is') st =
     (case scan_attackers is st of Inl e \<Rightarrow> Inl e | Inr st' \<Rightarrow> scan_attackers is' st')"
proof (induction "is" arbitrary: st)
  case Nil
  show ?case by simp
next
  case (Cons i "is")
  obtain g ss calls where st: "st = (g, ss, calls)" by (cases st)
  show ?case
    unfolding st by (simp add: Cons.IH split: list.splits sum.splits)
qed

lemma upt_split: "a < n \<Longrightarrow> [0..<n] = [0..<a] @ a # [Suc a..<n]"
proof -
  assume "a < n"
  then have "[0..<n] = [0..<a] @ [a..<n]"
    using upt_add_eq_append [of 0 a "n - a"] by simp
  with \<open>a < n\<close> show ?thesis by (simp add: upt_conv_Cons)
qed

lemma nth_list_update_if: "xs[i := x] ! k = (if i = k \<and> i < length xs then x else xs ! k)"
  by (cases "i < length xs") (auto simp: nth_list_update list_update_beyond)

lemma pop_middle_head:
  "3 < length xs \<Longrightarrow>
   take 1 (take (length xs div 2) xs @ drop (Suc (length xs div 2)) xs) = take 1 xs"
proof -
  assume "3 < length xs"
  then have "1 \<le> length xs div 2" by simp
  then show ?thesis by (auto simp: min_def)
qed

lemma undisturbed_update:
  assumes "undisturbed ss0 b ss" and "i \<noteq> j" and "j \<noteq> b"
    and "take 1 (body other') = take 1 (body (ss ! j))" and "body self' = body (ss ! i)"
  shows "undisturbed ss0 b (ss[i := self', j := other'])"
  using assms unfolding undisturbed_def
  by (auto simp: nth_list_update_if)

lemma scan_targets_undisturbed:
  assumes H: "\<forall>c < length ss0. c \<noteq> a \<longrightarrow> c \<noteq> b \<longrightarrow> body (ss0 ! c) \<noteq> [] \<longrightarrow>
               hd (body (ss0 ! c)) \<notin> set (drop 1 (body (ss0 ! b)))"
    and i: "i < length ss0" and h: "take 1 (body (ss0 ! i)) = [h]"
  shows "undisturbed ss0 b ss \<Longrightarrow> (i = a \<longrightarrow> b \<notin> set js) \<Longrightarrow>
     \<exists>g' ss' calls'. scan_targets i h js (g, ss, calls) = Inr (g', ss', calls') \<and>
       undisturbed ss0 b ss' \<and> set calls \<subseteq> set calls'"
proof (induction js arbitrary: g ss calls)
  case Nil
  then show ?case by simp
next
  case (Cons j js)
  from Cons.prems(2) have js: "i = a \<longrightarrow> b \<notin> set js" by simp
  show ?case
  proof (cases "i = j \<or> length (body (ss ! j)) < 2 \<or> h \<notin> set (drop 1 (body (ss ! j)))")
    case True
    then show ?thesis
      using Cons.IH [OF Cons.prems(1) js, of g calls] by (simp only: scan_targets_skip)
  next
    case False
    then have b: "i \<noteq> j" "h \<in> set (drop 1 (body (ss ! j)))" by auto
    have jb: "j \<noteq> b"
    proof
      assume "j = b"
      with b(1) Cons.prems(2) have "i \<noteq> b" "i \<noteq> a" by auto
      moreover from h have "body (ss0 ! i) \<noteq> []" "hd (body (ss0 ! i)) = h"
        by (cases "body (ss0 ! i)"; simp)+
      ultimately have "h \<notin> set (drop 1 (body (ss0 ! b)))" using H i by auto
      moreover have "body (ss ! b) = body (ss0 ! b)"
        using Cons.prems(1) by (simp add: undisturbed_def)
      ultimately show False using b(2) \<open>j = b\<close> by simp
    qed
    show ?thesis
    proof (cases "3 < length (body (ss ! j))")
      case True
      let ?g = "g\<lparr>message := bite_message, message_timeout := 2\<rparr>"
      let ?self = "(ss ! i)\<lparr>rattles := rattles (ss ! i) + 2\<rparr>"
      let ?other = "(ss ! j)\<lparr>body := take (length (body (ss ! j)) div 2) (body (ss ! j))
                                    @ drop (Suc (length (body (ss ! j)) div 2)) (body (ss ! j)),
                               length_attr := length_attr (ss ! j) - 1\<rparr>"
      have t: "take 1 (body ?other) = take 1 (body (ss ! j))"
        using pop_middle_head [OF True] by simp
      have "undisturbed ss0 b (ss[i := ?self, j := ?other])"
        using Cons.prems(1) b(1) jb t
        by (rule undisturbed_update) simp
      from Cons.IH [OF this js, of ?g "calls @ [(i, j, True)]"] True
      show ?thesis by (auto simp: scan_targets_bite [OF b])
    next
      case False
      let ?self = "(ss ! i)\<lparr>rattles := rattles (ss ! i) + 2\<rparr>"
      have "undisturbed ss0 b (ss[i := ?self, j := ss ! j])"
        using Cons.prems(1) b(1) jb
        by (rule undisturbed_update) simp_all
      from Cons.IH [OF this js, of g "calls @ [(i, j, False)]"] False
      show ?thesis by (auto simp: scan_targets_bite [OF b])
    qed
  qed
qed

lemma scan_attackers_undisturbed:
  assumes H: "\<forall>c < length ss0. c \<noteq> a \<longrightarrow> c \<noteq> b \<longrightarrow> body (ss0 ! c) \<noteq> [] \<longrightarrow>
               hd (body (ss0 ! c)) \<notin> set (drop 1 (body (ss0 ! b)))"
  shows "undisturbed ss0 b ss \<Longrightarrow> set is \<subseteq> {..<length ss0} \<Longrightarrow> a \<notin> set is \<Longrightarrow>
     \<exists>g' ss' calls'. scan_attackers is (g, ss, calls) = Inr (g', ss', calls') \<and>
       undisturbed ss0 b ss' \<and> set calls \<subseteq> set calls'"
proof (induction "is" arbitrary: g ss calls)
  case Nil
  then show ?case by simp
next
  case (Cons i "is")
  from Cons.prems have i: "i < length ss0" "i \<noteq> a"
    and rest: "set is \<subseteq> {..<length ss0}" "a \<notin> set is"
    by auto
  show ?case
  proof (cases "body (ss ! i)")
    case Nil
    then show ?thesis using Cons.IH [OF Cons.prems(1) rest, of g calls] by simp
  next
    case (Cons head1 segs)
    have "take 1 (body (ss ! i)) = take 1 (body (ss0 ! i))"
      using Cons.prems(1) i(1) by (simp add: undisturbed_def)
    with Cons have h: "take 1 (body (ss0 ! i)) = [head1]" by simp
    from scan_targets_undisturbed [OF H i(1) h Cons.prems(1), of "[0..<length ss]" g calls] i(2)
    obtain g1 ss1 calls1
      where 1: "scan_targets i head1 [0..<length ss] (g, ss, calls) = Inr (g1, ss1, calls1)"
        and u1: "undisturbed ss0 b ss1" and c1: "set calls \<subseteq> set calls1"
      by blast
    from Cons.IH [OF u1 rest, of g1 calls1]
    obtain g2 ss2 calls2
      where 2: "scan_attackers is (g1, ss1, calls1) = Inr (g2, ss2, calls2)"
        and u2: "undisturbed ss0 b ss2" and c2: "set calls1 \<subseteq> set calls2"
      by blast
    from 1 2 u2 c1 c2 Cons show ?thesis by auto
  qed
qed

text \<open>
  When the head of the snake at \<open>a\<close> lies on a segment after the head of the snake at
  \<open>b\<close>, which has more than 3 segments, and no third snake has its head there, the
  pass calls \<open>bite\<close> for (\<open>a\<close>, \<open>b\<close>) and the call returns \<open>True\<close>.
\<close>

lemma pass_records_bite:
  assumes a: "a < length ss0" and b: "b < length ss0" and ab: "a \<noteq> b"
    and ha: "body (ss0 ! a) = ha # ta"
    and on: "ha \<in> set (drop 1 (body (ss0 ! b)))"
    and long: "3 < length (body (ss0 ! b))"
    and H: "\<forall>c < length ss0. c \<noteq> a \<longrightarrow> c \<noteq> b \<longrightarrow> body (ss0 ! c) \<noteq> [] \<longrightarrow>
               hd (body (ss0 ! c)) \<notin> set (drop 1 (body (ss0 ! b)))"
  shows "\<exists>g' ss' calls'. scan_attackers [0..<length ss0] (g, ss0, []) = Inr (g', ss', calls') \<and>
     (a, b, True) \<in> set calls'"
proof -
  let ?n = "length ss0"
  have u0: "undisturbed ss0 b ss0" by (simp add: undisturbed_def)
  have "set [0..<a] \<subseteq> {..<length ss0}" "a \<notin> set [0..<a]"
    using a by auto
  from scan_attackers_undisturbed [OF H u0 this, of g "[]"]
  obtain g1 ss1 calls1
    where 1: "scan_attackers [0..<a] (g, ss0, []) = Inr (g1, ss1, calls1)"
      and u1: "undisturbed ss0 b ss1"
    by auto
  from u1 have l1: "length ss1 = ?n" by (simp add: undisturbed_def)
  from u1 a ha have "take 1 (body (ss1 ! a)) = [ha]" by (simp add: undisturbed_def)
  then obtain ta1 where ha1: "body (ss1 ! a) = ha # ta1"
    by (cases "body (ss1 ! a)") auto
  have h: "take 1 (body (ss0 ! a)) = [ha]" using ha by simp
  from scan_targets_undisturbed [OF H a h u1, of "[0..<b]" g1 calls1]
  obtain g2 ss2 calls2
    where 2: "scan_targets a ha [0..<b] (g1, ss1, calls1) = Inr (g2, ss2, calls2)"
      and u2: "undisturbed ss0 b ss2"
    by auto
  from u2 have b2: "body (ss2 ! b) = body (ss0 ! b)" by (simp add: undisturbed_def)
  let ?st3 = "(g2\<lparr>message := bite_message, message_timeout := 2\<rparr>,
              ss2[a := (ss2 ! a)\<lparr>rattles := rattles (ss2 ! a) + 2\<rparr>,
                 b := (ss2 ! b)\<lparr>body := take (length (body (ss2 ! b)) div 2) (body (ss2 ! b))
                                    @ drop (Suc (length (body (ss2 ! b)) div 2)) (body (ss2 ! b)),
                               length_attr := length_attr (ss2 ! b) - 1\<rparr>],
              calls2 @ [(a, b, True)])"
  have 3: "scan_targets a ha (b # [Suc b..<?n]) (g2, ss2, calls2)
             = scan_targets a ha [Suc b..<?n] ?st3"
    using scan_targets_bite [of a b ha ss2 "[Suc b..<?n]" g2 calls2] ab on long
    by (simp add: b2)
  from scan_targets_calls [of a ha "[Suc b..<?n]" "fst ?st3" "fst (snd ?st3)" "snd (snd ?st3)"]
  obtain g4 ss4 calls4
    where 4: "scan_targets a ha [Suc b..<?n] ?st3 = Inr (g4, ss4, calls4)"
      and c4: "(a, b, True) \<in> set calls4"
    by auto
  have t: "scan_targets a ha [0..<?n] (g1, ss1, calls1) = Inr (g4, ss4, calls4)"
    by (simp only: upt_split [OF b] scan_targets_append 2 3 4 sum.case)
  from scan_attackers_calls [of "[Suc a..<?n]" g4 ss4 calls4]
  obtain g5 ss5 calls5
    where 5: "scan_attackers [Suc a..<?n] (g4, ss4, calls4) = Inr (g5, ss5, calls5)"
      and c5: "set calls4 \<subseteq> set calls5"
    by blast
  have "scan_attackers (a # [Suc a..<?n]) (g1, ss1, calls1) = Inr (g5, ss5, calls5)"
    using ha1 t 5 by (simp add: l1)
  then have "scan_attackers [0..<?n] (g, ss0, []) = Inr (g5, ss5, calls5)"
    by (simp only: upt_split [OF a] scan_attackers_append 1 sum.case)
  with c4 c5 show ?thesis by auto
qed

text \<open>
  Claim C8, as stated, fails. In the list \<open>[snake_c, snake_a, snake_b]\<close> the heads of
  \<open>snake_a\<close> and \<open>snake_b\<close> lie on each other's bodies, both of more than 3 segments.
  \<open>snake_c\<close> comes first and bites \<open>snake_b\<close>, which removes the very segment under the
  head of \<open>snake_a\<close>: the pass then calls \<open>bite\<close> for (\<open>snake_b\<close>, \<open>snake_a\<close>) but never
  for (\<open>snake_a\<close>, \<open>snake_b\<close>).
\<close>

theorem mutual_bites_counterexample:
  "body snake_a = (2, 0) # [(1, 0), (0, 0), (- 1, 0)] \<and>
   body snake_b = (0, 0) # [(1, 0), (2, 0), (3, 0), (4, 0)] \<and>
   (2, 0) \<in> set [(1, 0), (2, 0), (3, 0), (4 :: int, 0 :: int)] \<and>
   (0, 0) \<in> set [(1, 0), (0, 0), (- 1 :: int, 0 :: int)] \<and>
   check_snake_collisions
     \<lparr>game = game0, active = True, snakes = [snake_c, snake_a, snake_b], spawn_timer = 0\<rparr>
   = Inr (\<lparr>game = game0\<lparr>message := bite_message, message_timeout := 2\<rparr>, active = True,
           snakes = [snake_c\<lparr>rattles := 2\<rparr>,
                     snake_a\<lparr>body := [(2, 0), (1, 0), (- 1, 0)], length_attr := 3\<rparr>,
                     snake_b\<lparr>body := [(0, 0), (1, 0), (3, 0), (4, 0)], length_attr := 4,
                             rattles := 2\<rparr>],
           spawn_timer = 0\<rparr>,
          [(0, 2, True), (2, 1, True)]) \<and>
   (1, 2, True) \<notin> set [(0, 2, True), (2 :: nat, 1 :: nat, True)]"
  by code_simp

text \<open>
  Claim C8, amended. In one collision pass, for two distinct snakes \<open>a\<close> and \<open>b\<close>, each
  with its head on a segment after the head of the other and each of more than 3
  segments, and with no third snake's head on a segment after the head of \<open>a\<close> or of
  \<open>b\<close>: the pass returns, and it has called \<open>bite\<close> for (\<open>a\<close>, \<open>b\<close>) and for
  (\<open>b\<close>, \<open>a\<close>), both calls returning \<open>True\<close>.
\<close>

theorem mutual_bites:
  assumes "a < length (snakes p)" and "b < length (snakes p)" and "a \<noteq> b"
    and "body (snakes p ! a) = ha # ta" and "body (snakes p ! b) = hb # tb"
    and "ha \<in> set tb" and "hb \<in> set ta"
    and "3 < length (body (snakes p ! a))" and "3 < length (body (snakes p ! b))"
    and "\<forall>c < length (snakes p). c \<noteq> a \<longrightarrow> c \<noteq> b \<longrightarrow> body (snakes p ! c) \<noteq> [] \<longrightarrow>
           hd (body (snakes p ! c)) \<notin> set ta \<union> set tb"
  shows "\<exists>p' calls. check_snake_collisions p = Inr (p', calls) \<and>
           (a, b, True) \<in> set calls \<and> (b, a, True) \<in> set calls"
proof -
  let ?ss = "snakes p"
  have Hb: "\<forall>c < length ?ss. c \<noteq> a \<longrightarrow> c \<noteq> b \<longrightarrow> body (?ss ! c) \<noteq> [] \<longrightarrow>
              hd (body (?ss ! c)) \<notin> set (drop 1 (body (?ss ! b)))"
    using assms(10) by (simp add: assms(5))
  have Ha: "\<forall>c < length ?ss. c \<noteq> b \<longrightarrow> c \<noteq> a \<longrightarrow> body (?ss ! c) \<noteq> [] \<longrightarrow>
              hd (body (?ss ! c)) \<notin> set (drop 1 (body (?ss ! a)))"
    using assms(10) by (simp add: assms(4))
  have onb: "ha \<in> set (drop 1 (body (?ss ! b)))" using assms(6) by (simp add: assms(5))
  have ona: "hb \<in> set (drop 1 (body (?ss ! a)))" using assms(7) by (simp add: assms(4))
  from pass_records_bite [OF assms(1,2,3,4) onb assms(9) Hb, of "game p"]
  obtain g' ss' calls'
    where r: "scan_attackers [0..<length ?ss] (game p, ?ss, []) = Inr (g', ss', calls')"
      and ab: "(a, b, True) \<in> set calls'"
    by blast
  from pass_records_bite [OF assms(2,1) assms(3) [symmetric] assms(5) ona assms(8) Ha, of "game p"] r
  have ba: "(b, a, True) \<in> set calls'" by auto
  from r ab ba show ?thesis by (simp add: check_snake_collisions_def)
qed

theorem mutual_bites_witness:
  "check_snake_collisions
     \<lparr>game = game0, active = True, snakes = [snake_d, snake_a, snake_b], spawn_timer = 0\<rparr>
   = Inr (\<lparr>game = game0\<lparr>message := bite_message, message_timeout := 2\<rparr>, active = True,
           snakes = [snake_d,
                     snake_a\<lparr>body := [(2, 0), (1, 0), (- 1, 0)], length_attr := 3,
                             rattles := 2\<rparr>,
                     snake_b\<lparr>body := [(0, 0), (1, 0), (3, 0), (4, 0)], length_attr := 4,
                             rattles := 2\<rparr>],
           spawn_timer = 0\<rparr>,
          [(1, 2, True), (2, 1, True)]) \<and>
   (1, 2, True) \<in> set [(1, 2, True), (2 :: nat, 1 :: nat, True)] \<and>
   (2, 1, True) \<in> set [(1, 2, True), (2 :: nat, 1 :: nat, True)]"
proof -
  let ?p = "\<lparr>game = game0, active = True, snakes = [snake_d, snake_a, snake_b], spawn_timer = 0\<rparr>"
  have r: "check_snake_collisions ?p
   = Inr (\<lparr>game = game0\<lparr>message := bite_message, message_timeout := 2\<rparr>, active = True,
           snakes = [snake_d,
                     snake_a\<lparr>body := [(2, 0), (1, 0), (- 1, 0)], length_attr := 3,
                             rattles := 2\<rparr>,
                     snake_b\<lparr>body := [(0, 0), (1, 0), (3, 0), (4, 0)], length_attr := 4,
                             rattles := 2\<rparr>],
           spawn_timer = 0\<rparr>,
          [(1, 2, True), (2, 1, True)])"
    by code_simp
  have others: "\<forall>c < length (snakes ?p). c \<noteq> 1 \<longrightarrow> c \<noteq> 2 \<longrightarrow> body (snakes ?p ! c) \<noteq> [] \<longrightarrow>
           hd (body (snakes ?p ! c))
             \<notin> set [(1, 0), (0, 0), (- 1, 0)] \<union> set [(1, 0), (2, 0), (3, 0), (4, 0)]"
  proof (intro allI impI)
    fix c
    assume "c < length (snakes ?p)" "c \<noteq> 1" "c \<noteq> 2"
    then have "c = 0" by simp
    then show "hd (body (snakes ?p ! c))
             \<notin> set [(1, 0), (0, 0), (- 1, 0)] \<union> set [(1, 0), (2, 0), (3, 0), (4, 0)]"
      by (simp add: snake_d_def)
  qed
  have "\<exists>p' calls. check_snake_collisions ?p = Inr (p', calls) \<and>
           (1, 2, True) \<in> set calls \<and> (2, 1, True) \<in> set calls"
    by (rule mutual_bites [where ha = "(2, 0)" and ta = "[(1, 0), (0, 0), (- 1, 0)]"
          and hb = "(0, 0)" and tb = "[(1, 0), (2, 0), (3, 0), (4, 0)]"])
       (use others in \<open>simp_all add: snake_a_def snake_b_def\<close>)
  with r show ?thesis by simp
qed

subsection \<open>SnakePlugin.try_spawn_snake and SnakePlugin.update\<close>

lemma spawn_trials_None:
  "\<forall>k \<in> set ks. \<not> plant_at g (offsets k) \<Longrightarrow> spawn_trials g offsets ks = None"
  by (induction ks) simp_all

text \<open>
  Claim C6. Below the cap, when none of the 10 trial offsets is at a plant,
  \<open>try_spawn_snake\<close> returns \<open>False\<close> and the plugin, its list of snakes included, is
  as before.
\<close>

theorem spawn_all_trials_fail:
  "length (snakes p) < 5 \<Longrightarrow> \<forall>k < 10. \<not> plant_at (game p) (offsets k) \<Longrightarrow>
   try_spawn_snake offsets c p = (p, False)"
  by (simp add: try_spawn_snake_def spawn_trials_None)

theorem spawn_all_trials_fail_witness:
  "length (snakes \<lparr>game = game0, active = True, snakes = [snake_c], spawn_timer = 0\<rparr>) < 5 \<and>
   \<not> (\<exists>k < 10. plant_at game0 (int k - 5, 3)) \<and>
   try_spawn_snake (\<lambda>k. (int k - 5, 3)) Choice2
     \<lparr>game = game0, active = True, snakes = [snake_c], spawn_timer = 0\<rparr>
   = (\<lparr>game = game0, active = True, snakes = [snake_c], spawn_timer = 0\<rparr>, False)"
proof -
  have h1: "length (snakes \<lparr>game = game0, active = True, snakes = [snake_c], spawn_timer = 0\<rparr>) < 5"
    by simp
  have h2: "\<forall>k < 10. \<not> plant_at
      (game \<lparr>game = game0, active = True, snakes = [snake_c], spawn_timer = 0\<rparr>)
      ((\<lambda>k. (int k - 5, 3)) k)"
    by (simp add: eval_nat_numeral All_less_Suc plant_at_def chr_eq_iff int_world_def
        game0_def py_round_def location_id_def)
  show ?thesis
    using h1 h2 spawn_all_trials_fail [OF h1 h2, of Choice2]
    by simp
qed

text \<open>
  Claim C7. While the plugin is inactive, \<open>update(dt)\<close> returns with the whole state
  as it was, for any \<open>dt\<close> and any draws: no snake, the game and \<open>spawn_timer\<close> included.
\<close>

theorem inactive_update_noop:
  "\<not> active p \<Longrightarrow> SnakePlugin_update md5 turns offsets c dt p = Inr p"
  by (simp add: SnakePlugin_update_def)

theorem inactive_update_noop_witness:
  "\<not> active \<lparr>game = game0, active = False, snakes = [snake_a, snake_b], spawn_timer = 0\<rparr> \<and>
   SnakePlugin_update id Map.empty (\<lambda>k. (3, - 7)) Choice2 1
     \<lparr>game = game0, active = False, snakes = [snake_a, snake_b], spawn_timer = 0\<rparr>
   = Inr \<lparr>game = game0, active = False, snakes = [snake_a, snake_b], spawn_timer = 0\<rparr>"
proof -
  have h: "\<not> active \<lparr>game = game0, active = False, snakes = [snake_a, snake_b], spawn_timer = 0\<rparr>"
    by simp
  show ?thesis
    using h inactive_update_noop [OF h, of id Map.empty "\<lambda>k. (3, - 7)" Choice2 1]
    by simp
qed

lemma update_snakes_length:
  "update_snakes md5 turns dt k g ss = Inr (g', ss') \<Longrightarrow> length ss' = length ss"
  by (induction ss arbitrary: k g g' ss') (auto split: sum.splits)

lemma check_snake_collisions_length:
  "check_snake_collisions p = Inr (p', calls) \<Longrightarrow> length (snakes p') = length (snakes p)"
  using scan_attackers_calls [of "[0..<length (snakes p)]" "game p" "snakes p" "[]"]
  by (auto simp: check_snake_collisions_def)

lemma try_spawn_snake_cap:
  "length (snakes p) \<le> 5 \<Longrightarrow> length (snakes (fst (try_spawn_snake offsets c p))) \<le> 5"
  by (auto simp: try_spawn_snake_def max_snakes_def split: option.splits)

text \<open>
  Claim C5. With 5 snakes or more, \<open>try_spawn_snake\<close> returns \<open>False\<close> and leaves
  the plugin as it is; and an \<open>update\<close> that starts with at most 5 snakes and returns
  ends with at most 5 snakes.
\<close>

theorem population_cap:
  "(5 \<le> length (snakes p) \<longrightarrow> try_spawn_snake offsets c p = (p, False)) \<and>
   (length (snakes p) \<le> 5 \<and> SnakePlugin_update md5 turns offsets c dt p = Inr p' \<longrightarrow>
      length (snakes p') \<le> 5)"
proof (intro conjI impI)
  assume "5 \<le> length (snakes p)"
  then show "try_spawn_snake offsets c p = (p, False)"
    by (simp add: try_spawn_snake_def max_snakes_def)
next
  assume a: "length (snakes p) \<le> 5 \<and> SnakePlugin_update md5 turns offsets c dt p = Inr p'"
  show "length (snakes p') \<le> 5"
  proof (cases "active p")
    case False
    with a show ?thesis by (auto simp: SnakePlugin_update_def)
  next
    case True
    from a True obtain g1 ss1 p2 calls
      where u: "update_snakes md5 turns dt 0 (game p) (snakes p) = Inr (g1, ss1)"
        and k: "check_snake_collisions (p\<lparr>game := g1, snakes := ss1\<rparr>) = Inr (p2, calls)"
      by (auto simp: SnakePlugin_update_def split: sum.splits)
    from update_snakes_length [OF u] check_snake_collisions_length [OF k] a
    have l2: "length (snakes p2) \<le> 5" by simp
    let ?p3 = "p2\<lparr>spawn_timer := spawn_timer p2 - dt\<rparr>"
    from l2 have l3: "length (snakes (?p3\<lparr>spawn_timer := spawn_interval\<rparr>)) \<le> 5" by simp
    from a True u k have "p' = ?p3 \<or>
        p' = fst (try_spawn_snake offsets c (?p3\<lparr>spawn_timer := spawn_interval\<rparr>))"
      by (auto simp: SnakePlugin_update_def Let_def split: if_splits)
    with l2 try_spawn_snake_cap [OF l3, of offsets c] show ?thesis by auto
  qed
qed

theorem population_cap_witness:
  "5 \<le> length (replicate 5 snake_c) \<and>
   try_spawn_snake (\<lambda>k. (int k - 5, 3)) Choice2
     \<lparr>game = game0, active = True, snakes = replicate 5 snake_c, spawn_timer = 0\<rparr>
   = (\<lparr>game = game0, active = True, snakes = replicate 5 snake_c, spawn_timer = 0\<rparr>, False) \<and>
   SnakePlugin_update id Map.empty (\<lambda>k. (int k - 5, 3)) Choice2 (1 / 10)
     \<lparr>game = game0, active = True, snakes = replicate 5 snake_c, spawn_timer = 0\<rparr>
   = Inr \<lparr>game = game0, active = True,
          snakes = replicate 5 (snake_c\<lparr>time_to_move := 2 / 5\<rparr>), spawn_timer = 10\<rparr>"
proof -
  let ?p = "\<lparr>game = game0, active = True, snakes = replicate 5 snake_c, spawn_timer = 0\<rparr>"
  have r: "SnakePlugin_update id Map.empty (\<lambda>k. (int k - 5, 3)) Choice2 (1 / 10) ?p
   = Inr \<lparr>game = game0, active = True,
          snakes = replicate 5 (snake_c\<lparr>time_to_move := 2 / 5\<rparr>), spawn_timer = 10\<rparr>"
    by code_simp
  have h: "5 \<le> length (snakes ?p)" by simp
  from population_cap [of ?p "\<lambda>k. (int k - 5, 3)" Choice2] h
  have "try_spawn_snake (\<lambda>k. (int k - 5, 3)) Choice2 ?p = (?p, False)" by blast
  with r show ?thesis by simp
qed

end
